theory Spec2Isabelle
  imports Main
begin

section \<open>Python values, types and annotations\<close>

text \<open>
  The errors the resolver and the matcher raise. \<open>TypeError\<close>, \<open>RuntimeError\<close> and
  \<open>KeyError\<close> carry the message; \<open>NotImplementedError\<close> is raised by the matcher for an
  annotation it cannot interpret; \<open>ModuleNotFoundError\<close> is the error of the module registry
  for an identifier it does not know. \<open>IndexError\<close> and \<open>ValueError\<close> are what Python raises on
  \<open>t[0]\<close> of an empty tuple and on unpacking a tuple of the wrong length.
\<close>

datatype pyerror =
    TypeError string
  | RuntimeError string
  | KeyError string
  | NotImplementedError string
  | ModuleNotFoundError string
  | IndexError
  | ValueError

text \<open>
  The classes a value can have (\<open>type(var)\<close>). \<open>T_empty\<close> is \<open>inspect.Parameter.empty\<close>, the
  class that marks a missing annotation or default; \<open>T_class\<close> is any other plain class.
\<close>

datatype pytype =
    T_object | T_NoneType | T_bool | T_int | T_str
  | T_list | T_set | T_tuple | T_dict
  | T_function | T_NestModule | T_list_iterator | T_empty
  | T_class string

text \<open>\<open>issubclass\<close>: every class derives from \<open>object\<close>, and \<open>bool\<close> derives from \<open>int\<close>.\<close>

definition issubclass :: "pytype \<Rightarrow> pytype \<Rightarrow> bool" where
  "issubclass c d = (c = d \<or> d = T_object \<or> (c = T_bool \<and> d = T_int))"

text \<open>
  An annotation object: \<open>None\<close>, a plain class (\<open>type(annotation) == type\<close>), \<open>typing.Any\<close>,
  a construct of \<open>typing\<close> whose \<open>str\<close> is \<open>typing.<name>[...]\<close> with its \<open>__args__\<close>
  (\<open>None\<close> when the construct is bare), or any other object, given by its \<open>str\<close>.
  \<open>typing_name\<close> is the text between \<open>typing.\<close> and the first bracket: the names the
  matcher tests for, and \<open>N_other\<close> for every other name.
\<close>

datatype typing_name =
    N_List | N_Set | N_Iterable | N_Iterator | N_Tuple | N_Dict | N_Union | N_Callable
  | N_other string

datatype anno =
    A_None
  | A_type pytype
  | A_Any
  | A_typing typing_name "anno list option"
  | A_other string

text \<open>One parameter of an \<open>inspect.Signature\<close>: its annotation, and whether it has a default.\<close>

record param =
  annotation :: anno
  has_default :: bool

record signature =
  parameters :: "(string \<times> param) list"
  return_annotation :: anno

text \<open>
  A value as the matcher and the completion checker read it. A set is the list of its
  members in iteration order. \<open>PNestModule\<close> is a deferred module instance: the module's
  identifier, its signature (\<open>var.sig\<close>) and the parameters already bound (\<open>var.params\<close>).
  \<open>PInstance\<close> is an object of some other class.
\<close>

datatype pyval =
    PNone
  | PBool bool
  | PInt int
  | PStr string
  | PList "pyval list"
  | PTuple "pyval list"
  | PSet "pyval list"
  | PDict "(pyval \<times> pyval) list"
  | PIter "pyval list"
  | PFunction signature
  | PNestModule string signature "(string \<times> pyval) list"
  | PInstance string

fun type_of :: "pyval \<Rightarrow> pytype" where
  "type_of PNone = T_NoneType"
| "type_of (PBool _) = T_bool"
| "type_of (PInt _) = T_int"
| "type_of (PStr _) = T_str"
| "type_of (PList _) = T_list"
| "type_of (PTuple _) = T_tuple"
| "type_of (PSet _) = T_set"
| "type_of (PDict _) = T_dict"
| "type_of (PIter _) = T_list_iterator"
| "type_of (PFunction _) = T_function"
| "type_of (PNestModule _ _ _) = T_NestModule"
| "type_of (PInstance c) = T_class c"

text \<open>\<open>callable(var)\<close>: functions and Nest modules are invocable.\<close>

fun callable :: "pyval \<Rightarrow> bool" where
  "callable (PFunction _) = True"
| "callable (PNestModule _ _ _) = True"
| "callable _ = False"

text \<open>\<open>issubclass(var_type, collections.abc.Iterable)\<close> and \<open>... Iterator\<close>.\<close>

fun is_iterable_type :: "pytype \<Rightarrow> bool" where
  "is_iterable_type T_str = True"
| "is_iterable_type T_list = True"
| "is_iterable_type T_set = True"
| "is_iterable_type T_tuple = True"
| "is_iterable_type T_dict = True"
| "is_iterable_type T_list_iterator = True"
| "is_iterable_type _ = False"

fun is_iterator_type :: "pytype \<Rightarrow> bool" where
  "is_iterator_type T_list_iterator = True"
| "is_iterator_type _ = False"

text \<open>The members a \<open>for\<close> over a list, set or tuple visits, and the items of a dict.\<close>

fun members :: "pyval \<Rightarrow> pyval list" where
  "members (PList xs) = xs"
| "members (PTuple xs) = xs"
| "members (PSet xs) = xs"
| "members _ = []"

fun dict_items :: "pyval \<Rightarrow> (pyval \<times> pyval) list" where
  "dict_items (PDict kvs) = kvs"
| "dict_items _ = []"

text \<open>\<open>inspect.formatannotation\<close>, as far as the message of the matcher's error needs it.\<close>

fun typing_name_str :: "typing_name \<Rightarrow> string" where
  "typing_name_str N_List = ''List''"
| "typing_name_str N_Set = ''Set''"
| "typing_name_str N_Iterable = ''Iterable''"
| "typing_name_str N_Iterator = ''Iterator''"
| "typing_name_str N_Tuple = ''Tuple''"
| "typing_name_str N_Dict = ''Dict''"
| "typing_name_str N_Union = ''Union''"
| "typing_name_str N_Callable = ''Callable''"
| "typing_name_str (N_other s) = s"

fun formatannotation :: "anno \<Rightarrow> string" where
  "formatannotation A_None = ''None''"
| "formatannotation A_Any = ''Any''"
| "formatannotation (A_typing nm _) = typing_name_str nm"
| "formatannotation (A_type _) = ''<class>''"
| "formatannotation (A_other s) = s"

definition not_supported :: "anno \<Rightarrow> pyerror" where
  "not_supported a =
     NotImplementedError (''The annotation type '' @ formatannotation a @ '' is not supported'')"

section \<open>The structural type matcher (utils.py, \<open>is_annotation_matched\<close>)\<close>

text \<open>
  The annotations of the parameters that a \<open>Callable\<close> annotation is compared with, and the
  signature they come from: for a Nest module the parameters that are neither bound nor
  optional, for any other callable all of them.
\<close>

fun callable_sig :: "pyval \<Rightarrow> signature" where
  "callable_sig (PNestModule _ sg _) = sg"
| "callable_sig (PFunction sg) = sg"
| "callable_sig _ = \<lparr>parameters = [], return_annotation = A_type T_empty\<rparr>"

fun func_annos :: "pyval \<Rightarrow> anno list" where
  "func_annos (PNestModule _ sg ps) =
     map (\<lambda>(k, v). annotation v)
       (filter (\<lambda>(k, v). k \<notin> set (map fst ps) \<and> \<not> has_default v) (parameters sg))"
| "func_annos (PFunction sg) = map (\<lambda>(k, v). annotation v) (parameters sg)"
| "func_annos _ = []"

text \<open>
  \<open>all(map(lambda x, y: x == y, func_annos, sub_annotation))\<close>: \<open>map\<close> stops at the shorter of
  the two sequences.
\<close>

fun all_equal :: "anno list \<Rightarrow> anno list \<Rightarrow> bool" where
  "all_equal (x # xs) (y # ys) = (x = y \<and> all_equal xs ys)"
| "all_equal _ _ = True"

definition callable_matched :: "pyval \<Rightarrow> anno list \<Rightarrow> bool" where
  "callable_matched var sub =
     (if int (length (func_annos var)) = int (length sub) - 1 then
        all_equal (func_annos var) sub \<and>
        (last sub = A_Any \<or>
         last sub = A_type T_object \<or>
         return_annotation (callable_sig var) = last sub \<or>
         (return_annotation (callable_sig var) = A_None \<and> last sub = A_type T_NoneType))
      else False)"

text \<open>
  The matcher. \<open>all(map(...))\<close> and \<open>any(map(...))\<close> evaluate lazily from the left: \<open>all\<close>
  stops at the first \<open>False\<close>, \<open>any\<close> at the first \<open>True\<close>, and an exception raised before
  that point propagates. \<open>all_matched xs sub\<close> is \<open>all(map(lambda x:
  is_annotation_matched(x, sub[0]), xs))\<close>.
\<close>

fun is_annotation_matched :: "pyval \<Rightarrow> anno \<Rightarrow> pyerror + bool"
  and all_matched :: "pyval list \<Rightarrow> anno list \<Rightarrow> pyerror + bool"
  and all_matched_pairwise :: "pyval list \<Rightarrow> anno list \<Rightarrow> pyerror + bool"
  and all_items_matched :: "(pyval \<times> pyval) list \<Rightarrow> anno list \<Rightarrow> pyerror + bool"
  and any_matched :: "pyval \<Rightarrow> anno list \<Rightarrow> pyerror + bool"
where
  "is_annotation_matched var A_None =
     (if var = PNone then Inr True else Inl (not_supported A_None))"
| "is_annotation_matched var (A_type t) = Inr (issubclass (type_of var) t)"
| "is_annotation_matched var A_Any = Inr True"
| "is_annotation_matched var (A_other s) = Inl (not_supported (A_other s))"
| "is_annotation_matched var (A_typing N_List sub_annotation) =
     (if type_of var = T_list then
        (case sub_annotation of
           None \<Rightarrow> Inr True
         | Some sub \<Rightarrow> all_matched (members var) sub)
      else Inr False)"
| "is_annotation_matched var (A_typing N_Set sub_annotation) =
     (if type_of var = T_set then
        (case sub_annotation of
           None \<Rightarrow> Inr True
         | Some sub \<Rightarrow> all_matched (members var) sub)
      else Inr False)"
| "is_annotation_matched var (A_typing N_Iterable sub_annotation) =
     Inr (is_iterable_type (type_of var))"
| "is_annotation_matched var (A_typing N_Iterator sub_annotation) =
     Inr (is_iterator_type (type_of var))"
| "is_annotation_matched var (A_typing N_Tuple sub_annotation) =
     (if type_of var = T_tuple then
        (case sub_annotation of
           None \<Rightarrow> Inr True
         | Some sub \<Rightarrow>
             if length sub \<noteq> length (members var) then Inr False
             else all_matched_pairwise (members var) sub)
      else Inr False)"
| "is_annotation_matched var (A_typing N_Dict sub_annotation) =
     (if type_of var = T_dict then
        (case sub_annotation of
           None \<Rightarrow> Inr True
         | Some sub \<Rightarrow>
             if length sub \<noteq> 2 then Inl ValueError
             else all_items_matched (dict_items var) sub)
      else Inr False)"
| "is_annotation_matched var (A_typing N_Union sub_annotation) =
     (case sub_annotation of
        None \<Rightarrow> Inr False
      | Some sub \<Rightarrow> any_matched var sub)"
| "is_annotation_matched var (A_typing N_Callable sub_annotation) =
     (if callable var then
        (case sub_annotation of
           None \<Rightarrow> Inr True
         | Some sub \<Rightarrow> Inr (callable_matched var sub))
      else Inr False)"
| "is_annotation_matched var (A_typing (N_other s) sub_annotation) =
     Inl (not_supported (A_typing (N_other s) sub_annotation))"
| "all_matched [] sub = Inr True"
| "all_matched (x # xs) [] = Inl IndexError"
| "all_matched (x # xs) (a # as) =
     (case is_annotation_matched x a of
        Inl e \<Rightarrow> Inl e
      | Inr b \<Rightarrow> if b then all_matched xs (a # as) else Inr False)"
| "all_matched_pairwise (x # xs) (a # as) =
     (case is_annotation_matched x a of
        Inl e \<Rightarrow> Inl e
      | Inr b \<Rightarrow> if b then all_matched_pairwise xs as else Inr False)"
| "all_matched_pairwise [] as = Inr True"
| "all_matched_pairwise (x # xs) [] = Inr True"
| "all_items_matched [] sub = Inr True"
| "all_items_matched ((k, v) # kvs) [key_anno, val_anno] =
     (case is_annotation_matched k key_anno of
        Inl e \<Rightarrow> Inl e
      | Inr b \<Rightarrow>
          if b then
            (case is_annotation_matched v val_anno of
               Inl e \<Rightarrow> Inl e
             | Inr c \<Rightarrow> if c then all_items_matched kvs [key_anno, val_anno] else Inr False)
          else Inr False)"
| "all_items_matched ((k, v) # kvs) [] = Inl ValueError"
| "all_items_matched ((k, v) # kvs) [a] = Inl ValueError"
| "all_items_matched ((k, v) # kvs) (a # b # c # cs) = Inl ValueError"
| "any_matched var [] = Inr False"
| "any_matched var (a # as) =
     (case is_annotation_matched var a of
        Inl e \<Rightarrow> Inl e
      | Inr b \<Rightarrow> if b then Inr True else any_matched var as)"

section \<open>The completion checker (parser.py, \<open>check_all_resolved\<close>)\<close>








section \<open>The object store\<close>

text \<open>
  The resolver mutates lists and dicts in place, and \<open>merge_dict\<close> stores objects of the
  document in the dict of global variables, so that one object can be reached from several
  places. Lists, dicts and module objects therefore live in a store, and a value is a
  scalar or a reference into the store. Dicts are keyed by strings and keep the order of
  insertion. \<open>OInstance\<close> is the value a module's constructor returned, \<open>ONestModule\<close> a
  deferred module instance; both carry the module's identifier and the keyword arguments.
\<close>

type_synonym addr = nat

datatype val = VNone | VBool bool | VInt int | VStr string | VRef addr

datatype obj =
    OList "val list"
  | ODict "(string \<times> val) list"
  | OInstance string "(string \<times> val) list"
  | ONestModule string "(string \<times> val) list"

record store =
  heap :: "addr \<Rightarrow> obj option"
  next_addr :: addr

text \<open>
  A computation returns \<open>None\<close> when it runs out of fuel, \<open>Some (Inl e)\<close> when it raises \<open>e\<close>,
  and \<open>Some (Inr x)\<close> when it returns \<open>x\<close>.
\<close>

type_synonym 'a result = "(pyerror + 'a) option"

definition bind :: "'a result \<Rightarrow> ('a \<Rightarrow> 'b result) \<Rightarrow> 'b result" where
  "bind m f = (case m of None \<Rightarrow> None | Some (Inl e) \<Rightarrow> Some (Inl e) | Some (Inr x) \<Rightarrow> f x)"

definition new_obj :: "obj \<Rightarrow> store \<Rightarrow> val \<times> store" where
  "new_obj ob st =
     (VRef (next_addr st),
      st\<lparr>heap := (heap st)(next_addr st \<mapsto> ob), next_addr := Suc (next_addr st)\<rparr>)"

fun is_list :: "store \<Rightarrow> val \<Rightarrow> bool" where
  "is_list st (VRef a) = (case heap st a of Some (OList xs) \<Rightarrow> True | _ \<Rightarrow> False)"
| "is_list st _ = False"

fun is_dict :: "store \<Rightarrow> val \<Rightarrow> bool" where
  "is_dict st (VRef a) = (case heap st a of Some (ODict kvs) \<Rightarrow> True | _ \<Rightarrow> False)"
| "is_dict st _ = False"

text \<open>The items of the dict at an address (none when there is no dict there).\<close>

definition items_at :: "store \<Rightarrow> addr \<Rightarrow> (string \<times> val) list" where
  "items_at st a = (case heap st a of Some (ODict kvs) \<Rightarrow> kvs | _ \<Rightarrow> [])"

definition keys_at :: "store \<Rightarrow> addr \<Rightarrow> string list" where
  "keys_at st a = map fst (items_at st a)"

text \<open>\<open>d[key] = v\<close> on the items of a dict: an existing key keeps its place, a new one goes last.\<close>

fun alist_set :: "string \<Rightarrow> val \<Rightarrow> (string \<times> val) list \<Rightarrow> (string \<times> val) list" where
  "alist_set key v [] = [(key, v)]"
| "alist_set key v ((k, x) # kvs) =
     (if k = key then (k, v) # kvs else (k, x) # alist_set key v kvs)"

definition alist_del :: "string \<Rightarrow> (string \<times> val) list \<Rightarrow> (string \<times> val) list" where
  "alist_del key kvs = filter (\<lambda>kv. fst kv \<noteq> key) kvs"

definition dict_setitem :: "addr \<Rightarrow> string \<Rightarrow> val \<Rightarrow> store \<Rightarrow> store result" where
  "dict_setitem a key v st =
     (case heap st a of
        Some (ODict kvs) \<Rightarrow> Some (Inr (st\<lparr>heap := (heap st)(a \<mapsto> ODict (alist_set key v kvs))\<rparr>))
      | _ \<Rightarrow> Some (Inl (TypeError ''object does not support item assignment'')))"

definition list_setitem :: "addr \<Rightarrow> nat \<Rightarrow> val \<Rightarrow> store \<Rightarrow> store result" where
  "list_setitem a idx v st =
     (case heap st a of
        Some (OList xs) \<Rightarrow>
          if idx < length xs then Some (Inr (st\<lparr>heap := (heap st)(a \<mapsto> OList (xs[idx := v]))\<rparr>))
          else Some (Inl IndexError)
      | _ \<Rightarrow> Some (Inl (TypeError ''object does not support item assignment'')))"

text \<open>Truth value of a Python value: \<open>if nest_module_name:\<close>, \<open>elif union:\<close>.\<close>

fun truthy :: "store \<Rightarrow> val \<Rightarrow> bool" where
  "truthy st VNone = False"
| "truthy st (VBool b) = b"
| "truthy st (VInt i) = (i \<noteq> 0)"
| "truthy st (VStr s) = (s \<noteq> [])"
| "truthy st (VRef a) =
     (case heap st a of
        Some (OList xs) \<Rightarrow> xs \<noteq> []
      | Some (ODict kvs) \<Rightarrow> kvs \<noteq> []
      | _ \<Rightarrow> True)"

section \<open>Recursive merge of two dicts (utils.py, \<open>merge_dict\<close>)\<close>

text \<open>
  The parameter \<open>union\<close> receives a bool from the callers and, in the recursive call
  \<open>merge_dict(src[key], diff[key], _path+[str(key)])\<close>, the path, a list of strings, since
  the third positional parameter is \<open>union\<close>; the test \<open>elif union\<close> takes its truth value.
\<close>

datatype union_arg = UBool bool | UPath "string list"

fun truthy_union :: "union_arg \<Rightarrow> bool" where
  "truthy_union (UBool b) = b"
| "truthy_union (UPath p) = (p \<noteq> [])"

definition changed_size :: pyerror where
  "changed_size = RuntimeError ''dictionary changed size during iteration''"

definition not_iterable :: pyerror where
  "not_iterable = TypeError ''object is not iterable''"

definition not_subscriptable :: pyerror where
  "not_subscriptable = TypeError ''object is not subscriptable''"

text \<open>
  The loop \<open>for key in diff\<close>. The iterator of a dict visits the entries by position and
  raises when the size of the dict is not the one it had when the loop began; \<open>n0\<close> is that
  size and the list holds the positions still to visit. \<open>rec\<close> is the recursive call of
  \<open>merge_dict\<close>.
\<close>

fun merge_loop ::
  "(addr \<Rightarrow> val \<Rightarrow> union_arg \<Rightarrow> string list option \<Rightarrow> store \<Rightarrow> (val \<times> store) result) \<Rightarrow>
   addr \<Rightarrow> addr \<Rightarrow> union_arg \<Rightarrow> string list \<Rightarrow> nat \<Rightarrow> nat list \<Rightarrow> store \<Rightarrow> store result"
where
  "merge_loop rec src diff uni path n0 [] st =
     (if length (items_at st diff) \<noteq> n0 then Some (Inl changed_size) else Some (Inr st))"
| "merge_loop rec src diff uni path n0 (i # is) st =
     (if length (items_at st diff) \<noteq> n0 then Some (Inl changed_size)
      else if n0 \<le> i then Some (Inr st)
      else
        (let key = fst (items_at st diff ! i); dv = snd (items_at st diff ! i) in
         case heap st src of
           Some (ODict skvs) \<Rightarrow>
             (case map_of skvs key of
                Some sv \<Rightarrow>
                  if is_dict st sv \<and> is_dict st dv then
                    (case sv of
                       VRef sa \<Rightarrow>
                         bind (rec sa dv (UPath (path @ [key])) None st)
                           (\<lambda>r. merge_loop rec src diff uni path n0 is (snd r))
                     | _ \<Rightarrow> Some (Inl not_subscriptable))
                  else
                    bind (dict_setitem src key dv st)
                      (\<lambda>st'. merge_loop rec src diff uni path n0 is st')
              | None \<Rightarrow>
                  if truthy_union uni then
                    bind (dict_setitem src key dv st)
                      (\<lambda>st'. merge_loop rec src diff uni path n0 is st')
                  else merge_loop rec src diff uni path n0 is st)
         | _ \<Rightarrow> Some (Inl not_subscriptable)))"

text \<open>
  \<open>merge_dict(src, diff, union, _path)\<close>; the first argument of the model is the fuel, which
  bounds the depth of the recursion; \<open>uni\<close> and \<open>path0\<close> stand for \<open>union\<close> and \<open>_path\<close>.
  The function returns \<open>src\<close>, the object it was given.
\<close>

primrec merge_dict ::
  "nat \<Rightarrow> addr \<Rightarrow> val \<Rightarrow> union_arg \<Rightarrow> string list option \<Rightarrow> store \<Rightarrow> (val \<times> store) result"
where
  "merge_dict 0 = (\<lambda>src diff uni path0 st. None)"
| "merge_dict (Suc n) = (\<lambda>src diff uni path0 st.
     (let path = (case path0 of None \<Rightarrow> [] | Some p \<Rightarrow> p) in
      case diff of
        VRef d \<Rightarrow>
          (case heap st d of
             Some (ODict dkvs) \<Rightarrow>
               bind (merge_loop (merge_dict n) src d uni path (length dkvs) [0..<length dkvs] st)
                 (\<lambda>st'. Some (Inr (VRef src, st')))
           | _ \<Rightarrow> Some (Inl not_iterable))
      | _ \<Rightarrow> Some (Inl not_iterable)))"

section \<open>The config resolver (parser.py, \<open>parse_config\<close>)\<close>

text \<open>The two settings the resolver reads, with their defaults from settings.py.\<close>

record settings =
  VARIABLE_PREFIX :: string
  PARSER_STRICT :: bool

definition default_settings :: settings where
  "default_settings = \<lparr>VARIABLE_PREFIX = ''@'', PARSER_STRICT = False\<rparr>"

text \<open>\<open>is_variable\<close>: the value is a string that starts with the variable prefix.\<close>

definition is_variable :: "settings \<Rightarrow> val \<Rightarrow> bool" where
  "is_variable S name =
     (case name of
        VStr s \<Rightarrow> take (length (VARIABLE_PREFIX S)) s = VARIABLE_PREFIX S
      | _ \<Rightarrow> False)"

definition could_not_resolve :: "string \<Rightarrow> pyerror" where
  "could_not_resolve name =
     TypeError (''Could not resolve variable '' @ [CHR 0x22] @ name @ [CHR 0x22] @ ''.'')"

text \<open>
  \<open>resolve_variable\<close>, on the items of the dicts \<open>global_vars\<close> and \<open>env_vars\<close>; \<open>name[1:]\<close>
  drops the first character of the name.
\<close>

definition resolve_variable ::
  "string \<Rightarrow> (string \<times> val) list \<Rightarrow> (string \<times> val) list \<Rightarrow> pyerror + val" where
  "resolve_variable name global_vars env_vars =
     (case map_of global_vars (drop 1 name) of
        Some v \<Rightarrow> Inr v
      | None \<Rightarrow>
          (case map_of env_vars (drop 1 name) of
             Some v \<Rightarrow> Inr v
           | None \<Rightarrow> Inl (could_not_resolve name)))"

fun the_str :: "val \<Rightarrow> string" where
  "the_str (VStr s) = s"
| "the_str _ = []"

definition list_len :: "store \<Rightarrow> addr \<Rightarrow> nat" where
  "list_len st a = (case heap st a of Some (OList xs) \<Rightarrow> length xs | _ \<Rightarrow> 0)"

text \<open>
  The loop over the elements of a list: lines 43 to 47 for the list \<open>config\<close>, and lines 53
  to 57, which are the same statements, for a list \<open>val\<close> inside a dict. The iterator of a
  list visits the positions below the current length; the list of positions holds those
  still to visit. \<open>rec\<close> is the recursive call of \<open>parse_config\<close>.
\<close>

fun list_loop ::
  "settings \<Rightarrow> (val \<Rightarrow> store \<Rightarrow> (val \<times> store) result) \<Rightarrow> addr \<Rightarrow> addr \<Rightarrow>
   addr \<Rightarrow> nat list \<Rightarrow> store \<Rightarrow> store result"
where
  "list_loop S rec env_vars global_vars a [] st = Some (Inr st)"
| "list_loop S rec env_vars global_vars a (idx # idxs) st =
     (case heap st a of
        Some (OList xs) \<Rightarrow>
          if length xs \<le> idx then Some (Inr st)
          else
            (let val = xs ! idx in
             if is_variable S val then
               (case resolve_variable (the_str val) (items_at st global_vars) (items_at st env_vars) of
                  Inl e \<Rightarrow> Some (Inl e)
                | Inr v \<Rightarrow>
                    bind (list_setitem a idx v st)
                      (\<lambda>st'. list_loop S rec env_vars global_vars a idxs st'))
             else if is_dict st val then
               bind (rec val st)
                 (\<lambda>r. bind (list_setitem a idx (fst r) (snd r))
                    (\<lambda>st'. list_loop S rec env_vars global_vars a idxs st'))
             else list_loop S rec env_vars global_vars a idxs st)
      | _ \<Rightarrow> Some (Inl not_iterable))"

text \<open>
  The loop \<open>for key, val in config.items()\<close> of lines 49 to 62, by position, with the size
  check of the dict iterator. \<open>mrg\<close> is \<open>merge_dict\<close> with its fuel.
\<close>

fun dict_loop ::
  "settings \<Rightarrow> (val \<Rightarrow> store \<Rightarrow> (val \<times> store) result) \<Rightarrow>
   (addr \<Rightarrow> val \<Rightarrow> union_arg \<Rightarrow> string list option \<Rightarrow> store \<Rightarrow> (val \<times> store) result) \<Rightarrow>
   addr \<Rightarrow> addr \<Rightarrow> addr \<Rightarrow> nat \<Rightarrow> nat list \<Rightarrow> store \<Rightarrow> store result"
where
  "dict_loop S rec mrg env_vars global_vars a n0 [] st =
     (if length (items_at st a) \<noteq> n0 then Some (Inl changed_size) else Some (Inr st))"
| "dict_loop S rec mrg env_vars global_vars a n0 (i # is) st =
     (if length (items_at st a) \<noteq> n0 then Some (Inl changed_size)
      else if n0 \<le> i then Some (Inr st)
      else
        (let key = fst (items_at st a ! i); val = snd (items_at st a ! i) in
         if is_variable S val then
           (case resolve_variable (the_str val) (items_at st global_vars) (items_at st env_vars) of
              Inl e \<Rightarrow> Some (Inl e)
            | Inr v \<Rightarrow>
                bind (dict_setitem a key v st)
                  (\<lambda>st'. dict_loop S rec mrg env_vars global_vars a n0 is st'))
         else if is_list st val then
           (case val of
              VRef l \<Rightarrow>
                bind (list_loop S rec env_vars global_vars l [0..<list_len st l] st)
                  (\<lambda>st'. dict_loop S rec mrg env_vars global_vars a n0 is st')
            | _ \<Rightarrow> Some (Inl not_iterable))
         else if is_dict st val then
           bind (rec val st)
             (\<lambda>r. bind (dict_setitem a key (fst r) (snd r))
                (\<lambda>st'. if key = ''_var'' then
                          bind (mrg global_vars (fst r) (UBool True) None st')
                            (\<lambda>m. dict_loop S rec mrg env_vars global_vars a n0 is (snd m))
                        else dict_loop S rec mrg env_vars global_vars a n0 is st'))
         else dict_loop S rec mrg env_vars global_vars a n0 is st))"

text \<open>
  Modelled from the spec: the lookup \<open>module_manager[nest_module_name]\<close> in the module
  registry, whose code (nest/modules.py) is not among the sources. The registry resolves an
  identifier to a module descriptor, here its signature, and fails with
  \<open>ModuleNotFoundError\<close> when the identifier matches no registered module.
\<close>

definition lookup_module :: "(string \<Rightarrow> signature option) \<Rightarrow> val \<Rightarrow> pyerror + string" where
  "lookup_module module_manager nest_module_name =
     (case nest_module_name of
        VStr s \<Rightarrow>
          (case module_manager s of
             Some sg \<Rightarrow> Inr s
           | None \<Rightarrow> Inl (ModuleNotFoundError s))
      | _ \<Rightarrow> Inl (ModuleNotFoundError []))"

text \<open>
  Modelled from the spec: the call \<open>nest_module(**kwargs)\<close> of a module descriptor, whose code
  (nest/modules.py) is not among the sources. A call flagged with delayed resolution (a
  true keyword argument \<open>delay_resolve\<close>) constructs a deferred module instance that carries
  the arguments; any other call runs the constructor at once, and its return value is a
  terminal value.
\<close>

definition nest_module_call :: "string \<Rightarrow> (string \<times> val) list \<Rightarrow> store \<Rightarrow> (val \<times> store) result" where
  "nest_module_call name kwargs st =
     (let delay = (case map_of kwargs ''delay_resolve'' of Some v \<Rightarrow> truthy st v | None \<Rightarrow> False);
          args = alist_del ''delay_resolve'' kwargs
      in Some (Inr (new_obj (if delay then ONestModule name args else OInstance name args) st)))"

definition multiple_values :: pyerror where
  "multiple_values = TypeError ''got multiple values for keyword argument delay_resolve''"

text \<open>
  Lines 64 to 70: \<open>config.pop('_name', None)\<close> and, when the name is true, the call of the
  module with the remaining items of \<open>config\<close> as keyword arguments. In non-strict mode the
  call passes \<open>delay_resolve=True\<close> as well, which Python rejects when \<open>config\<close> has that
  key already.
\<close>

definition instantiate ::
  "settings \<Rightarrow> (string \<Rightarrow> signature option) \<Rightarrow> addr \<Rightarrow> store \<Rightarrow> (val \<times> store) result" where
  "instantiate S module_manager a st =
     (case map_of (items_at st a) ''_name'' of
        None \<Rightarrow> Some (Inr (VRef a, st))
      | Some nest_module_name \<Rightarrow>
          (let st1 = st\<lparr>heap := (heap st)(a \<mapsto> ODict (alist_del ''_name'' (items_at st a)))\<rparr> in
           if truthy st1 nest_module_name then
             (case lookup_module module_manager nest_module_name of
                Inl e \<Rightarrow> Some (Inl e)
              | Inr nm \<Rightarrow>
                  if PARSER_STRICT S then nest_module_call nm (items_at st1 a) st1
                  else if ''delay_resolve'' \<in> set (keys_at st1 a) then Some (Inl multiple_values)
                  else nest_module_call nm (items_at st1 a @ [(''delay_resolve'', VBool True)]) st1)
           else Some (Inr (VRef a, st1))))"

text \<open>
  \<open>parse_config(config, env_vars, global_vars)\<close>. The fuel bounds the depth of the recursion;
  \<open>env_vars\<close> and \<open>global_vars\<close> are the addresses of the two dicts. A list or a dict is
  changed in place and returned, unless the dict names a module.
\<close>

primrec parse_config ::
  "settings \<Rightarrow> (string \<Rightarrow> signature option) \<Rightarrow> nat \<Rightarrow> addr \<Rightarrow> addr \<Rightarrow> val \<Rightarrow> store \<Rightarrow>
   (val \<times> store) result"
where
  "parse_config S module_manager 0 = (\<lambda>env_vars global_vars config st. None)"
| "parse_config S module_manager (Suc n) = (\<lambda>env_vars global_vars config st.
     if is_list st config then
       (case config of
          VRef a \<Rightarrow>
            bind (list_loop S (parse_config S module_manager n env_vars global_vars)
                    env_vars global_vars a [0..<list_len st a] st)
              (\<lambda>st'. Some (Inr (config, st')))
        | _ \<Rightarrow> Some (Inr (config, st)))
     else if is_dict st config then
       (case config of
          VRef a \<Rightarrow>
            bind (dict_loop S (parse_config S module_manager n env_vars global_vars) (merge_dict n)
                    env_vars global_vars a (length (items_at st a)) [0..<length (items_at st a)] st)
              (\<lambda>st'. instantiate S module_manager a st')
        | _ \<Rightarrow> Some (Inr (config, st)))
     else Some (Inr (config, st)))"

section \<open>Documents, and the sweep over parameter sets (parser.py, \<open>run_tasks\<close>)\<close>










section \<open>Stores used in examples\<close>

text \<open>
  The document \<open>{"x": "@missing"}\<close> at address 2, with an empty dict of environment variables
  at address 0 and an empty dict of global variables at address 1.
\<close>

definition missing_store :: store where
  "missing_store =
     \<lparr>heap = [0 \<mapsto> ODict [], 1 \<mapsto> ODict [], 2 \<mapsto> ODict [(''x'', VStr ''@missing'')]],
      next_addr = 3\<rparr>"

section \<open>Predicates on documents in the store\<close>






text \<open>The value and the store that a computation returned.\<close>

definition result_value :: "(val \<times> store) result \<Rightarrow> val option" where
  "result_value r = (case r of Some (Inr vs) \<Rightarrow> Some (fst vs) | _ \<Rightarrow> None)"

definition result_store :: "(val \<times> store) result \<Rightarrow> store" where
  "result_store r =
     (case r of Some (Inr vs) \<Rightarrow> snd vs | _ \<Rightarrow> \<lparr>heap = Map.empty, next_addr = 0\<rparr>)"



section \<open>Module objects in the store\<close>

text \<open>No object of the store is a deferred module instance; none is a constructed instance.\<close>

definition no_deferred :: "store \<Rightarrow> bool" where
  "no_deferred st \<longleftrightarrow> (\<forall>a nm args. heap st a \<noteq> Some (ONestModule nm args))"

definition no_instance :: "store \<Rightarrow> bool" where
  "no_instance st \<longleftrightarrow> (\<forall>a nm args. heap st a \<noteq> Some (OInstance nm args))"

text \<open>No dict of the store has the key \<open>delay_resolve\<close>.\<close>

definition no_delay_key :: "store \<Rightarrow> bool" where
  "no_delay_key st \<longleftrightarrow>
     (\<forall>a kvs. heap st a = Some (ODict kvs) \<longrightarrow> ''delay_resolve'' \<notin> set (map fst kvs))"

text \<open>
  What resolution keeps true of the store in each mode: in strict mode there is no
  deferred module instance (and no key \<open>delay_resolve\<close> that would ask for one), in non-strict
  mode there is no constructed instance.
\<close>

definition mode_invariant :: "settings \<Rightarrow> store \<Rightarrow> bool" where
  "mode_invariant S st \<longleftrightarrow>
     (if PARSER_STRICT S then no_deferred st \<and> no_delay_key st else no_instance st)"

text \<open>The same, object by object.\<close>

fun obj_ok :: "settings \<Rightarrow> obj \<Rightarrow> bool" where
  "obj_ok S (OList xs) = True"
| "obj_ok S (ODict kvs) = (\<not> PARSER_STRICT S \<or> ''delay_resolve'' \<notin> set (map fst kvs))"
| "obj_ok S (OInstance nm args) = PARSER_STRICT S"
| "obj_ok S (ONestModule nm args) = (\<not> PARSER_STRICT S)"






section \<open>The dict of global variables as an object of its own\<close>











section \<open>Sites of substitution\<close>








section \<open>Mappings as trees, and the union merge on trees\<close>

text \<open>
  What \<open>merge_dict\<close> sees of a value: a mapping with its entries, or any other value, of which
  it looks at nothing but the object itself.
\<close>

datatype mtree = Leaf val | Node "(string \<times> mtree) list"

text \<open>\<open>d[key] = t\<close> on the entries of a mapping.\<close>

fun put :: "string \<Rightarrow> mtree \<Rightarrow> (string \<times> mtree) list \<Rightarrow> (string \<times> mtree) list" where
  "put key t [] = [(key, t)]"
| "put key t ((k, x) # kts) = (if k = key then (k, t) # kts else (k, x) # put key t kts)"

text \<open>
  The union merge as the spec words it, on the entries of the source and of the difference
  mapping: nested mappings merge recursively, a key of the difference that the source does
  not have is added, and on any other collision the value of the source wins.
\<close>

fun spec_union_merge ::
  "(string \<times> mtree) list \<Rightarrow> (string \<times> mtree) list \<Rightarrow> (string \<times> mtree) list" where
  "spec_union_merge s [] = s"
| "spec_union_merge s ((k, Leaf v) # d) =
     spec_union_merge (case map_of s k of None \<Rightarrow> put k (Leaf v) s | Some x \<Rightarrow> s) d"
| "spec_union_merge s ((k, Node dd) # d) =
     spec_union_merge
       (case map_of s k of
          None \<Rightarrow> put k (Node dd) s
        | Some (Node ss) \<Rightarrow> put k (Node (spec_union_merge ss dd)) s
        | Some (Leaf v) \<Rightarrow> s)
       d"

text \<open>
  The union merge with the value of the difference mapping winning: nested mappings merge
  recursively, a key of the difference that the source does not have is added, and on any
  other collision the value of the difference replaces the value of the source.
\<close>

fun union_merge ::
  "(string \<times> mtree) list \<Rightarrow> (string \<times> mtree) list \<Rightarrow> (string \<times> mtree) list" where
  "union_merge s [] = s"
| "union_merge s ((k, Leaf v) # d) = union_merge (put k (Leaf v) s) d"
| "union_merge s ((k, Node dd) # d) =
     union_merge
       (put k (case map_of s k of
                 Some (Node ss) \<Rightarrow> Node (union_merge ss dd)
               | _ \<Rightarrow> Node dd) s)
       d"

text \<open>The depth of nested mappings.\<close>

fun height :: "mtree \<Rightarrow> nat"
  and height_items :: "(string \<times> mtree) list \<Rightarrow> nat"
where
  "height (Leaf v) = 0"
| "height (Node kts) = Suc (height_items kts)"
| "height_items [] = 0"
| "height_items ((k, t) # kts) = max (height t) (height_items kts)"

text \<open>
  The value \<open>v\<close> of the store is the tree \<open>t\<close>: the result lists the addresses of the dicts of
  the tree. A leaf stands for a value that is not a dict.
\<close>

fun repr :: "store \<Rightarrow> mtree \<Rightarrow> val \<Rightarrow> addr list option"
  and repr_items :: "store \<Rightarrow> (string \<times> mtree) list \<Rightarrow> (string \<times> val) list \<Rightarrow> addr list option"
where
  "repr st (Leaf w) v = (if v = w \<and> \<not> is_dict st v then Some [] else None)"
| "repr st (Node kts) v =
     (case v of
        VRef a \<Rightarrow>
          (case heap st a of
             Some (ODict kvs) \<Rightarrow> map_option (\<lambda>F. a # F) (repr_items st kts kvs)
           | _ \<Rightarrow> None)
      | _ \<Rightarrow> None)"
| "repr_items st [] kvs = (if kvs = [] then Some [] else None)"
| "repr_items st ((k, t) # kts) kvs =
     (case kvs of
        [] \<Rightarrow> None
      | kv # kvs' \<Rightarrow>
          if fst kv = k then
            (case repr st t (snd kv) of
               None \<Rightarrow> None
             | Some F1 \<Rightarrow> map_option (\<lambda>F2. F1 @ F2) (repr_items st kts kvs'))
          else None)"

text \<open>
  From \<open>st\<close> to \<open>st'\<close> only objects at the addresses \<open>M\<close> have changed, the dicts are the same
  objects and no object is new.
\<close>

definition dict_frame :: "addr set \<Rightarrow> store \<Rightarrow> store \<Rightarrow> bool" where
  "dict_frame M st st' \<longleftrightarrow>
     (\<forall>a. a \<notin> M \<longrightarrow> heap st' a = heap st a) \<and>
     (\<forall>a. is_dict st' (VRef a) = is_dict st (VRef a)) \<and>
     next_addr st' = next_addr st"

text \<open>The source \<open>{a: 1}\<close> at address 0 and the difference \<open>{a: 2}\<close> at address 1.\<close>

definition collision_store :: store where
  "collision_store =
     \<lparr>heap = [0 \<mapsto> ODict [(''a'', VInt 1)], 1 \<mapsto> ODict [(''a'', VInt 2)]], next_addr = 2\<rparr>"

text \<open>
  The source \<open>{a: {x: 1}, b: 2}\<close> at address 0, with its mapping \<open>{x: 1}\<close> at address 1, and
  the difference \<open>{a: {y: 3}, b: 5, c: 7}\<close> at address 2, with its mapping \<open>{y: 3}\<close> at
  address 3.
\<close>

definition nested_store :: store where
  "nested_store =
     \<lparr>heap = [0 \<mapsto> ODict [(''a'', VRef 1), (''b'', VInt 2)],
              1 \<mapsto> ODict [(''x'', VInt 1)],
              2 \<mapsto> ODict [(''a'', VRef 3), (''b'', VInt 5), (''c'', VInt 7)],
              3 \<mapsto> ODict [(''y'', VInt 3)]],
      next_addr = 4\<rparr>"

section \<open>Properties of the matcher and of the completion checker\<close>






lemma type_of_tuple: "type_of v = T_tuple \<longleftrightarrow> (\<exists>xs. v = PTuple xs)"
  by (cases v) auto
lemma type_of_dict: "type_of v = T_dict \<longleftrightarrow> (\<exists>xs. v = PDict xs)"
  by (cases v) auto



lemma all_equal_eq: "length xs = length ys \<Longrightarrow> all_equal xs (ys @ [r]) \<longleftrightarrow> xs = ys"
  by (induction xs ys rule: list_induct2) auto

lemma callable_matched_snoc:
  "callable_matched v (params @ [ret]) \<longleftrightarrow>
     func_annos v = params \<and>
     (ret = A_Any \<or> ret = A_type T_object \<or> return_annotation (callable_sig v) = ret \<or>
      (return_annotation (callable_sig v) = A_None \<and> ret = A_type T_NoneType))"
  by (auto simp: callable_matched_def all_equal_eq)

lemma callable_matched_Nil: "\<not> callable_matched v []"
  by (simp add: callable_matched_def)

text \<open>
  Claim C4, amended. A value matches \<open>Callable(params..., ret)\<close> exactly when it is invocable,
  its effective parameter annotations are equal to \<open>params\<close> (same length, equal position by
  position), and \<open>ret\<close> is \<open>Any\<close>, or \<open>ret\<close> is the class \<open>object\<close>, or \<open>ret\<close> equals the
  declared return annotation, or the declared return annotation is \<open>None\<close> and \<open>ret\<close> is the
  class of \<open>None\<close>; the matcher does not raise on such an annotation. The effective
  parameters of an ordinary callable are all parameters of its signature; those of a
  deferred module instance are the parameters of its signature that are not bound and
  have no default.
\<close>

theorem C4_callable_rule:
  "(is_annotation_matched v (A_typing N_Callable (Some (params @ [ret]))) = Inr True \<longleftrightarrow>
      callable v \<and> func_annos v = params \<and>
      (ret = A_Any \<or> ret = A_type T_object \<or> return_annotation (callable_sig v) = ret \<or>
       (return_annotation (callable_sig v) = A_None \<and> ret = A_type T_NoneType))) \<and>
   (\<exists>b. is_annotation_matched v (A_typing N_Callable (Some (params @ [ret]))) = Inr b) \<and>
   func_annos (PFunction sg) = map (\<lambda>kp. annotation (snd kp)) (parameters sg) \<and>
   func_annos (PNestModule n sg ps) =
     map (\<lambda>kp. annotation (snd kp))
       (filter (\<lambda>kp. map_of ps (fst kp) = None \<and> \<not> has_default (snd kp)) (parameters sg))"
proof -
  have a: "(\<lambda>(k, v). annotation v) = (\<lambda>kp. annotation (snd kp))" by auto
  have b: "(\<lambda>(k, v). k \<notin> set (map fst ps) \<and> \<not> has_default v) =
           (\<lambda>kp. map_of ps (fst kp) = None \<and> \<not> has_default (snd kp))"
    by (auto simp: map_of_eq_None_iff fun_eq_iff)
  have c: "\<exists>b. is_annotation_matched v (A_typing N_Callable (Some (params @ [ret]))) = Inr b"
    by (cases "callable v") auto
  have d: "is_annotation_matched v (A_typing N_Callable (Some (params @ [ret]))) = Inr True \<longleftrightarrow>
      callable v \<and> func_annos v = params \<and>
      (ret = A_Any \<or> ret = A_type T_object \<or> return_annotation (callable_sig v) = ret \<or>
       (return_annotation (callable_sig v) = A_None \<and> ret = A_type T_NoneType))"
    by (simp add: callable_matched_snoc)
  have e: "func_annos (PFunction sg) = map (\<lambda>kp. annotation (snd kp)) (parameters sg)"
    by (simp add: a)
  have f: "func_annos (PNestModule n sg ps) =
     map (\<lambda>kp. annotation (snd kp))
       (filter (\<lambda>kp. map_of ps (fst kp) = None \<and> \<not> has_default (snd kp)) (parameters sg))"
    by (simp add: a b del: set_map)
  show ?thesis using c d e f by blast
qed

text \<open>
  Claim C4 as stated fails: a function of one \<open>int\<close> parameter returning \<open>int\<close> matches
  \<open>Callable([int], object)\<close>, though \<open>object\<close> is not \<open>Any\<close>, is not the declared return
  annotation, and the declared return annotation is not \<open>None\<close>.
\<close>

theorem C4_object_return_counterexample:
  "is_annotation_matched
     (PFunction \<lparr>parameters = [(''x'', \<lparr>annotation = A_type T_int, has_default = False\<rparr>)],
                 return_annotation = A_type T_int\<rparr>)
     (A_typing N_Callable (Some [A_type T_int, A_type T_object])) = Inr True \<and>
   \<not> (A_type T_object = A_Any \<or>
      A_type T_object = A_type T_int \<or>
      (A_type T_int = A_None \<and> A_type T_object = A_type T_NoneType))"
  by (simp add: callable_matched_def)

text \<open>
  Claim C5. Matching a value that is not \<open>None\<close> against the annotation \<open>None\<close> raises
  \<open>NotImplementedError\<close>; the claim says that it must not raise.
\<close>

theorem C5_None_annotation_raises: "is_annotation_matched (PInt 1) A_None = Inl (not_supported A_None)"
  by simp



section \<open>Properties of the resolver\<close>

text \<open>
  Claim C1. Resolving a variable reference returns the value that the global variables
  have for the name without its first character whenever they have one; otherwise the
  value that the environment variables have for it whenever they have one; and otherwise
  raises the error whose message quotes the name. Resolving \<open>{"x": "@missing"}\<close> with both
  dicts empty raises that error for \<open>@missing\<close>, with any fuel.
\<close>

theorem C1_resolve_variable:
  "(map_of global_vars (drop 1 name) = Some v \<longrightarrow>
      resolve_variable name global_vars env_vars = Inr v) \<and>
   (map_of global_vars (drop 1 name) = None \<and> map_of env_vars (drop 1 name) = Some w \<longrightarrow>
      resolve_variable name global_vars env_vars = Inr w) \<and>
   (map_of global_vars (drop 1 name) = None \<and> map_of env_vars (drop 1 name) = None \<longrightarrow>
      resolve_variable name global_vars env_vars =
        Inl (TypeError (''Could not resolve variable '' @ [CHR 0x22] @ name @ [CHR 0x22] @ ''.''))) \<and>
   parse_config default_settings module_manager (Suc n) 0 1 (VRef 2) missing_store =
     Some (Inl (TypeError (''Could not resolve variable '' @ [CHR 0x22] @ ''@missing'' @ [CHR 0x22] @ ''.'')))"
  by (simp add: resolve_variable_def could_not_resolve_def missing_store_def default_settings_def
        items_at_def is_variable_def bind_def)

theorem C1_resolve_variable_witness:
  "resolve_variable ''@k'' [(''k'', VInt 1)] [(''k'', VInt 2)] = Inr (VInt 1) \<and>
   resolve_variable ''@k'' [(''j'', VInt 1)] [(''k'', VInt 2)] = Inr (VInt 2) \<and>
   resolve_variable ''@k'' [] [] =
     Inl (TypeError (''Could not resolve variable '' @ [CHR 0x22] @ ''@k'' @ [CHR 0x22] @ ''.''))"
  using C1_resolve_variable [of "[(''k'', VInt 1)]" "''@k''" "VInt 1" "[(''k'', VInt 2)]" "VInt 2"]
        C1_resolve_variable [of "[(''j'', VInt 1)]" "''@k''" "VInt 1" "[(''k'', VInt 2)]" "VInt 2"]
        C1_resolve_variable [of "[]" "''@k''" "VInt 1" "[]" "VInt 2"]
  by simp

section \<open>Resolving a document without module references and variable references\<close>













lemma is_list_heap: "is_list st (VRef a) \<longleftrightarrow> (\<exists>xs. heap st a = Some (OList xs))"
  by (auto split: option.splits obj.splits)










declare parse_config.simps(2) [simp del]









section \<open>Strict and non-strict resolution\<close>



lemma keys_alist_del: "fst ` set (alist_del key kvs) = fst ` set kvs - {key}"
  by (auto simp: alist_del_def)

lemma mode_invariant_iff:
  "mode_invariant S st \<longleftrightarrow> (\<forall>a ob. heap st a = Some ob \<longrightarrow> obj_ok S ob)"
proof
  assume inv: "mode_invariant S st"
  show "\<forall>a ob. heap st a = Some ob \<longrightarrow> obj_ok S ob"
  proof (intro allI impI)
    fix a ob assume h: "heap st a = Some ob"
    show "obj_ok S ob"
      using inv h
      by (cases ob) (auto simp: mode_invariant_def no_deferred_def no_instance_def no_delay_key_def
                          split: if_splits)
  qed
next
  assume ok: "\<forall>a ob. heap st a = Some ob \<longrightarrow> obj_ok S ob"
  show "mode_invariant S st"
  proof (cases "PARSER_STRICT S")
    case True
    have "no_deferred st" unfolding no_deferred_def using ok True by fastforce
    moreover have "no_delay_key st" unfolding no_delay_key_def using ok True by fastforce
    ultimately show ?thesis using True by (simp add: mode_invariant_def)
  next
    case False
    have "no_instance st" unfolding no_instance_def using ok False by fastforce
    then show ?thesis using False by (simp add: mode_invariant_def)
  qed
qed


lemma inv_new_obj:
  "mode_invariant S st \<Longrightarrow> obj_ok S ob \<Longrightarrow> mode_invariant S (snd (new_obj ob st))"
  by (simp add: mode_invariant_iff new_obj_def)





lemma merge_dict_Suc:
  "merge_dict (Suc n) src diff uni path0 st =
     (let path = (case path0 of None \<Rightarrow> [] | Some p \<Rightarrow> p) in
      case diff of
        VRef d \<Rightarrow>
          (case heap st d of
             Some (ODict dkvs) \<Rightarrow>
               bind (merge_loop (merge_dict n) src d uni path (length dkvs) [0..<length dkvs] st)
                 (\<lambda>st'. Some (Inr (VRef src, st')))
           | _ \<Rightarrow> Some (Inl not_iterable))
      | _ \<Rightarrow> Some (Inl not_iterable))"
  by simp

declare merge_dict.simps(2) [simp del]













section \<open>The dict of global variables across the iterations of a sweep\<close>















































section \<open>Substitution of variable references\<close>



















section \<open>The union merge of the sweep refines the merge of trees\<close>

lemma dict_frame_refl: "dict_frame M st st"
  by (simp add: dict_frame_def)

lemma dict_frame_trans:
  "dict_frame M st st1 \<Longrightarrow> dict_frame M' st1 st2 \<Longrightarrow> M \<subseteq> N \<Longrightarrow> M' \<subseteq> N \<Longrightarrow> dict_frame N st st2"
  unfolding dict_frame_def
  by (metis subsetD)

lemma dict_frame_is_dict: "dict_frame M st st' \<Longrightarrow> is_dict st' v = is_dict st v"
  by (cases v) (simp_all add: dict_frame_def)

lemma dict_frame_heap: "dict_frame M st st' \<Longrightarrow> a \<notin> M \<Longrightarrow> heap st' a = heap st a"
  by (simp add: dict_frame_def)

lemma dict_frame_setitem:
  "heap st a = Some (ODict kvs) \<Longrightarrow>
   dict_frame {a} st (st\<lparr>heap := (heap st)(a \<mapsto> ODict kvs')\<rparr>)"
  by (auto simp: dict_frame_def)

lemma repr_frame:
  "dict_frame M st st' \<Longrightarrow> repr st t v = Some F \<Longrightarrow> set F \<inter> M = {} \<Longrightarrow> repr st' t v = Some F"
  "dict_frame M st st' \<Longrightarrow> repr_items st kts kvs = Some F \<Longrightarrow> set F \<inter> M = {} \<Longrightarrow>
   repr_items st' kts kvs = Some F"
proof (induction st t v and st kts kvs arbitrary: F and F rule: repr_repr_items.induct)
  case (1 st w v)
  then show ?case by (simp add: dict_frame_is_dict split: if_splits)
next
  case (2 st kts v)
  then obtain a kvs F0 where v: "v = VRef a" and h: "heap st a = Some (ODict kvs)"
    and r: "repr_items st kts kvs = Some F0" and F: "F = a # F0"
    by (auto split: val.splits option.splits obj.splits)
  have a: "a \<notin> M" and F0: "set F0 \<inter> M = {}" using 2(4) F by auto
  have h': "heap st' a = Some (ODict kvs)" using dict_frame_heap[OF 2(2) a] h by simp
  have "repr_items st' kts kvs = Some F0" using 2(1)[OF v h refl 2(2) r F0] .
  then show ?case using v h' F by simp
next
  case (3 st kvs)
  then show ?case by (simp split: if_splits)
next
  case (4 st k t kts kvs)
  then obtain kv kvs' F1 F2 where kvs: "kvs = kv # kvs'" and k: "fst kv = k"
    and r1: "repr st t (snd kv) = Some F1" and r2: "repr_items st kts kvs' = Some F2"
    and F: "F = F1 @ F2"
    by (auto split: list.splits if_splits option.splits)
  have d1: "set F1 \<inter> M = {}" and d2: "set F2 \<inter> M = {}" using 4(5) F by auto
  have "repr st' t (snd kv) = Some F1" using 4(1)[OF kvs k 4(3) r1 d1] .
  moreover have "repr_items st' kts kvs' = Some F2" using 4(2)[OF kvs k r1 4(3) r2 d2] .
  ultimately show ?case using kvs k F by simp
qed

lemma repr_items_keys: "repr_items st kts kvs = Some F \<Longrightarrow> map fst kvs = map fst kts"
proof (induction kts arbitrary: kvs F)
  case Nil
  then show ?case by (simp split: if_splits)
next
  case (Cons kt kts)
  obtain k t where kt: "kt = (k, t)" by (cases kt)
  show ?case using Cons.prems Cons.IH unfolding kt
    by (auto split: list.splits if_splits option.splits)
qed

lemma map_of_keys_None:
  "map fst kvs = map fst kts \<Longrightarrow> map_of kvs k = None \<Longrightarrow> map_of kts k = None"
  by (metis map_of_eq_None_iff set_map)

lemma put_absent: "map_of kts k = None \<Longrightarrow> put k t kts = kts @ [(k, t)]"
  by (induction k t kts rule: put.induct) (auto split: if_splits)

lemma alist_set_absent: "map_of kvs k = None \<Longrightarrow> alist_set k v kvs = kvs @ [(k, v)]"
  by (induction k v kvs rule: alist_set.induct) (auto split: if_splits)

lemma put_present: "k \<notin> fst ` set p \<Longrightarrow> put k t (p @ (k, x) # q) = p @ (k, t) # q"
  by (induction p) auto

lemma alist_set_present: "k \<notin> fst ` set p \<Longrightarrow> alist_set k v (p @ (k, x) # q) = p @ (k, v) # q"
  by (induction p) auto

lemma map_of_present: "k \<notin> fst ` set p \<Longrightarrow> map_of (p @ (k, x) # q) k = Some x"
  by (induction p) auto

lemma repr_items_snoc:
  "repr_items st kts kvs = Some F \<Longrightarrow> repr st t v = Some Ft \<Longrightarrow>
   repr_items st (kts @ [(k, t)]) (kvs @ [(k, v)]) = Some (F @ Ft)"
proof (induction kts arbitrary: kvs F)
  case Nil
  then show ?case by (simp split: if_splits)
next
  case (Cons kt kts)
  obtain k' t' where kt: "kt = (k', t')" by (cases kt)
  show ?case using Cons.prems Cons.IH unfolding kt
    by (auto split: list.splits if_splits option.splits)
qed

lemma repr_items_join:
  "repr_items st p' p = Some Fp \<Longrightarrow> repr st t v = Some Ft \<Longrightarrow> repr_items st q' q = Some Fq \<Longrightarrow>
   repr_items st (p' @ (k, t) # q') (p @ (k, v) # q) = Some (Fp @ Ft @ Fq)"
proof (induction p' arbitrary: p Fp)
  case Nil
  then show ?case by (simp split: if_splits)
next
  case (Cons kt kts)
  obtain k' t' where kt: "kt = (k', t')" by (cases kt)
  show ?case using Cons.prems Cons.IH unfolding kt
    by (auto split: list.splits if_splits option.splits)
qed

lemma repr_items_lookup:
  "repr_items st kts kvs = Some F \<Longrightarrow> map_of kvs k = Some v \<Longrightarrow>
   \<exists>p q p' q' t Fp Ft Fq.
     kvs = p @ (k, v) # q \<and> kts = p' @ (k, t) # q' \<and> k \<notin> fst ` set p \<and> k \<notin> fst ` set p' \<and>
     repr_items st p' p = Some Fp \<and> repr st t v = Some Ft \<and> repr_items st q' q = Some Fq \<and>
     F = Fp @ Ft @ Fq"
proof (induction kts arbitrary: kvs F)
  case Nil
  then show ?case by (simp split: if_splits)
next
  case (Cons kt kts)
  obtain k' t' where kt: "kt = (k', t')" by (cases kt)
  obtain v' kvs' F1 F2 where kvs: "kvs = (k', v') # kvs'"
    and r1: "repr st t' v' = Some F1" and r2: "repr_items st kts kvs' = Some F2"
    and F: "F = F1 @ F2"
    using Cons.prems(1) unfolding kt
    by (auto split: list.splits if_splits option.splits)
  show ?case
  proof (cases "k' = k")
    case True
    then have v: "v' = v" using Cons.prems(2) kvs by simp
    have e: "repr_items st [] [] = Some []" by simp
    show ?thesis
      apply (rule exI[of _ "[]"])
      apply (rule exI[of _ kvs'])
      apply (rule exI[of _ "[]"])
      apply (rule exI[of _ kts])
      apply (rule exI[of _ t'])
      apply (rule exI[of _ "[]"])
      apply (rule exI[of _ F1])
      apply (rule exI[of _ F2])
      using True v kvs kt r1 r2 F by simp
  next
    case False
    then have m: "map_of kvs' k = Some v" using Cons.prems(2) kvs by simp
    obtain p q p' q' t Fp Ft Fq where
      a: "kvs' = p @ (k, v) # q" "kts = p' @ (k, t) # q'" "k \<notin> fst ` set p" "k \<notin> fst ` set p'"
        "repr_items st p' p = Some Fp" "repr st t v = Some Ft" "repr_items st q' q = Some Fq"
        "F2 = Fp @ Ft @ Fq"
      using Cons.IH[OF r2 m] by blast
    have rp: "repr_items st ((k', t') # p') ((k', v') # p) = Some (F1 @ Fp)"
      using r1 a(5) by simp
    show ?thesis
      apply (rule exI[of _ "(k', v') # p"])
      apply (rule exI[of _ q])
      apply (rule exI[of _ "(k', t') # p'"])
      apply (rule exI[of _ q'])
      apply (rule exI[of _ t])
      apply (rule exI[of _ "F1 @ Fp"])
      apply (rule exI[of _ Ft])
      apply (rule exI[of _ Fq])
      using False a rp kvs kt F by simp
  qed
qed


lemma dict_frame_mono: "dict_frame M st st' \<Longrightarrow> M \<subseteq> N \<Longrightarrow> dict_frame N st st'"
  unfolding dict_frame_def by (metis subsetD)

lemma repr_Node_dict: "repr st t v = Some F \<Longrightarrow> is_dict st v \<Longrightarrow> \<exists>kts. t = Node kts"
  by (cases t) (simp_all split: if_splits)

lemma repr_NodeD:
  "repr st (Node kts) v = Some F \<Longrightarrow>
   \<exists>a kvs F0. v = VRef a \<and> heap st a = Some (ODict kvs) \<and> repr_items st kts kvs = Some F0 \<and>
              F = a # F0"
  by (auto split: val.splits option.splits obj.splits)

lemma repr_not_dict_put:
  "repr st t v = Some F \<Longrightarrow> \<not> is_dict st v \<Longrightarrow> \<exists>w. t = Leaf w"
  by (cases t) (auto split: val.splits option.splits obj.splits)

lemma merge_loop_refines:
  assumes rec: "\<And>sa ss dv dd st1 Fsa Fdv u p0.
      repr st1 (Node ss) (VRef sa) = Some Fsa \<Longrightarrow> repr st1 (Node dd) dv = Some Fdv \<Longrightarrow>
      distinct (Fsa @ Fdv) \<Longrightarrow> height (Node dd) \<le> n \<Longrightarrow> truthy_union u \<Longrightarrow>
      \<exists>st' F'. rec sa dv u p0 st1 = Some (Inr (VRef sa, st')) \<and>
               dict_frame (set Fsa \<union> set Fdv) st1 st' \<and>
               repr st' (Node (union_merge ss dd)) (VRef sa) = Some F' \<and> distinct F' \<and>
               set F' \<subseteq> set Fsa \<union> set Fdv"
  shows "heap st da = Some (ODict dkvs) \<Longrightarrow> length dkvs = n0 \<Longrightarrow> i \<le> n0 \<Longrightarrow>
         repr_items st rest (drop i dkvs) = Some Fr \<Longrightarrow>
         repr st (Node s) (VRef src) = Some Fs \<Longrightarrow>
         distinct (Fs @ Fr) \<Longrightarrow> da \<notin> set Fs \<union> set Fr \<Longrightarrow> height_items rest \<le> n \<Longrightarrow>
         truthy_union uni \<Longrightarrow>
         \<exists>st' F'. merge_loop rec src da uni path n0 [i..<n0] st = Some (Inr st') \<and>
                  dict_frame (set Fs \<union> set Fr) st st' \<and>
                  repr st' (Node (union_merge s rest)) (VRef src) = Some F' \<and> distinct F' \<and>
                  set F' \<subseteq> set Fs \<union> set Fr"
proof (induction "n0 - i" arbitrary: i st rest Fr s Fs)
  case 0
  then have i: "i = n0" by simp
  have dr: "drop i dkvs = []" using i "0.prems"(2) by simp
  have rest: "rest = []" using "0.prems"(4) unfolding dr by (cases rest) auto
  have u: "[i..<n0] = []" using i by simp
  have l: "merge_loop rec src da uni path n0 [] st = Some (Inr st)"
    using "0.prems"(1,2) by (simp add: items_at_def)
  have d: "distinct Fs" using "0.prems"(6) by simp
  show ?case
    unfolding u l rest
    using dict_frame_refl "0.prems"(5) d by auto
next
  case (Suc m)
  then have lt: "i < n0" by simp
  define key where "key = fst (dkvs ! i)"
  define dv where "dv = snd (dkvs ! i)"
  have dr: "drop i dkvs = (key, dv) # drop (Suc i) dkvs"
    using lt Suc.prems(2) by (simp add: key_def dv_def Cons_nth_drop_Suc)
  obtain t rest' Fdv Fr' where rest: "rest = (key, t) # rest'"
    and rt: "repr st t dv = Some Fdv"
    and rr: "repr_items st rest' (drop (Suc i) dkvs) = Some Fr'" and Fr: "Fr = Fdv @ Fr'"
    using Suc.prems(4) unfolding dr by (cases rest) (auto split: if_splits option.splits)
  obtain skvs Fs0 where hs: "heap st src = Some (ODict skvs)"
    and rs: "repr_items st s skvs = Some Fs0" and Fs: "Fs = src # Fs0"
    using repr_NodeD[OF Suc.prems(5)] by auto
  have it: "items_at st da = dkvs" using Suc.prems(1) by (simp add: items_at_def)
  have up: "[i..<n0] = i # [Suc i..<n0]" using lt by (simp add: upt_conv_Cons)
  have dist: "distinct (src # Fs0 @ Fdv @ Fr')" using Suc.prems(6) Fs Fr by simp
  have unfold: "merge_loop rec src da uni path n0 [i..<n0] st =
      (case map_of skvs key of
         Some sv \<Rightarrow>
           if is_dict st sv \<and> is_dict st dv then
             (case sv of
                VRef sa \<Rightarrow>
                  bind (rec sa dv (UPath (path @ [key])) None st)
                    (\<lambda>r. merge_loop rec src da uni path n0 [Suc i..<n0] (snd r))
              | _ \<Rightarrow> Some (Inl not_subscriptable))
           else
             bind (dict_setitem src key dv st)
               (\<lambda>st'. merge_loop rec src da uni path n0 [Suc i..<n0] st')
       | None \<Rightarrow>
           bind (dict_setitem src key dv st)
             (\<lambda>st'. merge_loop rec src da uni path n0 [Suc i..<n0] st'))"
    unfolding key_def dv_def
    using lt Suc.prems(2,9) hs
    by (simp add: up it Let_def split: option.splits val.splits)
  have step: "\<exists>st1 s1 Fs1.
      merge_loop rec src da uni path n0 [i..<n0] st =
        merge_loop rec src da uni path n0 [Suc i..<n0] st1 \<and>
      union_merge s rest = union_merge s1 rest' \<and>
      repr st1 (Node s1) (VRef src) = Some Fs1 \<and> distinct Fs1 \<and>
      set Fs1 \<subseteq> set Fs \<union> set Fdv \<and> dict_frame (set Fs \<union> set Fdv) st st1"
  proof (cases "map_of skvs key")
    case None
    let ?st1 = "st\<lparr>heap := (heap st)(src \<mapsto> ODict (skvs @ [(key, dv)]))\<rparr>"
    have set: "dict_setitem src key dv st = Some (Inr ?st1)"
      using hs None by (simp add: dict_setitem_def alist_set_absent)
    have fr: "dict_frame {src} st ?st1" by (rule dict_frame_setitem[OF hs])
    have ns: "map_of s key = None" using map_of_keys_None[OF repr_items_keys[OF rs] None] .
    have um: "union_merge s rest = union_merge (s @ [(key, t)]) rest'"
      using ns rest by (cases t) (simp_all add: put_absent)
    have r1: "repr_items ?st1 s skvs = Some Fs0" using repr_frame(2)[OF fr rs] dist by auto
    have r2: "repr ?st1 t dv = Some Fdv" using repr_frame(1)[OF fr rt] dist by auto
    have r: "repr ?st1 (Node (s @ [(key, t)])) (VRef src) = Some (src # Fs0 @ Fdv)"
      using repr_items_snoc[OF r1 r2, of key] by simp
    have loop: "merge_loop rec src da uni path n0 [i..<n0] st =
                merge_loop rec src da uni path n0 [Suc i..<n0] ?st1"
      unfolding unfold using None set by (simp add: bind_def)
    have d1: "distinct (src # Fs0 @ Fdv)" using dist by auto
    have sub: "set (src # Fs0 @ Fdv) \<subseteq> set Fs \<union> set Fdv" using Fs by auto
    have "{src} \<subseteq> set Fs \<union> set Fdv" using Fs by simp
    then have fr': "dict_frame (set Fs \<union> set Fdv) st ?st1"
      by (rule dict_frame_mono[OF fr])
    show ?thesis using loop um r d1 sub fr' by blast
  next
    case (Some sv)
    obtain p q p' q' ts Fp Fts Fq where
      sp: "skvs = p @ (key, sv) # q" "s = p' @ (key, ts) # q'"
        "key \<notin> fst ` set p" "key \<notin> fst ` set p'"
      and rp: "repr_items st p' p = Some Fp" and rts: "repr st ts sv = Some Fts"
      and rq: "repr_items st q' q = Some Fq" and Fs0: "Fs0 = Fp @ Fts @ Fq"
      using repr_items_lookup[OF rs Some] by blast
    have ms: "map_of s key = Some ts" unfolding sp(2) by (rule map_of_present[OF sp(4)])
    show ?thesis
    proof (cases "is_dict st sv \<and> is_dict st dv")
      case True
      obtain ss where ts: "ts = Node ss" using repr_Node_dict[OF rts] True by blast
      obtain dd where t: "t = Node dd" using repr_Node_dict[OF rt] True by blast
      obtain sa where sv: "sv = VRef sa" using True by (cases sv) simp_all
      have h: "height (Node dd) \<le> n" using Suc.prems(8) rest t by simp
      have d0: "distinct (Fts @ Fdv)" using dist Fs0 by auto
      obtain st1 F1 where
        call: "rec sa dv (UPath (path @ [key])) None st = Some (Inr (VRef sa, st1))"
        and fr: "dict_frame (set Fts \<union> set Fdv) st st1"
        and r1: "repr st1 (Node (union_merge ss dd)) (VRef sa) = Some F1"
        and dF1: "distinct F1" and sF1: "set F1 \<subseteq> set Fts \<union> set Fdv"
        using rec[OF rts[unfolded ts sv] rt[unfolded t] d0 h, of "UPath (path @ [key])" None]
        by auto
      have src: "src \<notin> set Fts \<union> set Fdv" using dist Fs0 by auto
      have hs1: "heap st1 src = Some (ODict skvs)" using dict_frame_heap[OF fr src] hs by simp
      have dp: "set Fp \<inter> (set Fts \<union> set Fdv) = {}" using dist Fs0 by auto
      have dq: "set Fq \<inter> (set Fts \<union> set Fdv) = {}" using dist Fs0 by auto
      have rp1: "repr_items st1 p' p = Some Fp" using repr_frame(2)[OF fr rp dp] .
      have rq1: "repr_items st1 q' q = Some Fq" using repr_frame(2)[OF fr rq dq] .
      let ?s1 = "p' @ (key, Node (union_merge ss dd)) # q'"
      have r: "repr st1 (Node ?s1) (VRef src) = Some (src # Fp @ F1 @ Fq)"
        using repr_items_join[OF rp1 r1[unfolded sv[symmetric]] rq1, of key] hs1 sp(1) by simp
      have um: "union_merge s rest = union_merge ?s1 rest'"
        using ms rest t ts sp(2,4) by (simp add: put_present)
      have loop: "merge_loop rec src da uni path n0 [i..<n0] st =
                  merge_loop rec src da uni path n0 [Suc i..<n0] st1"
        unfolding unfold using Some True sv call by (simp add: bind_def)
      have d1: "distinct (src # Fp @ F1 @ Fq)" using dist Fs0 dF1 sF1 by auto
      have sub: "set (src # Fp @ F1 @ Fq) \<subseteq> set Fs \<union> set Fdv" using Fs Fs0 sF1 by auto
      have "set Fts \<union> set Fdv \<subseteq> set Fs \<union> set Fdv" using Fs Fs0 by auto
      then have fr': "dict_frame (set Fs \<union> set Fdv) st st1"
        by (rule dict_frame_mono[OF fr])
      show ?thesis using loop um r d1 sub fr' by blast
    next
      case False
      let ?st1 = "st\<lparr>heap := (heap st)(src \<mapsto> ODict (p @ (key, dv) # q))\<rparr>"
      have set: "dict_setitem src key dv st = Some (Inr ?st1)"
        using hs sp(1,3) by (simp add: dict_setitem_def alist_set_present)
      have fr: "dict_frame {src} st ?st1" by (rule dict_frame_setitem[OF hs])
      have rp1: "repr_items ?st1 p' p = Some Fp" using repr_frame(2)[OF fr rp] dist Fs0 by auto
      have rq1: "repr_items ?st1 q' q = Some Fq" using repr_frame(2)[OF fr rq] dist Fs0 by auto
      have rt1: "repr ?st1 t dv = Some Fdv" using repr_frame(1)[OF fr rt] dist by auto
      let ?s1 = "p' @ (key, t) # q'"
      have r: "repr ?st1 (Node ?s1) (VRef src) = Some (src # Fp @ Fdv @ Fq)"
        using repr_items_join[OF rp1 rt1 rq1, of key] by simp
      have um: "union_merge s rest = union_merge ?s1 rest'"
      proof (cases t)
        case (Leaf w)
        then show ?thesis using rest sp(2,4) by (simp add: put_present)
      next
        case (Node dd)
        then have "is_dict st dv" using rt by (auto split: val.splits option.splits obj.splits)
        then have "\<not> is_dict st sv" using False by simp
        then obtain w where "ts = Leaf w" using repr_not_dict_put[OF rts] by blast
        then show ?thesis using Node ms rest sp(2,4) by (simp add: put_present)
      qed
      have loop: "merge_loop rec src da uni path n0 [i..<n0] st =
                  merge_loop rec src da uni path n0 [Suc i..<n0] ?st1"
        unfolding unfold using Some False set by (auto simp: bind_def)
      have d1: "distinct (src # Fp @ Fdv @ Fq)" using dist Fs0 by auto
      have sub: "set (src # Fp @ Fdv @ Fq) \<subseteq> set Fs \<union> set Fdv" using Fs Fs0 by auto
      have "{src} \<subseteq> set Fs \<union> set Fdv" using Fs by simp
      then have fr': "dict_frame (set Fs \<union> set Fdv) st ?st1"
        by (rule dict_frame_mono[OF fr])
      show ?thesis using loop um r d1 sub fr' by blast
    qed
  qed
  then obtain st1 s1 Fs1 where
    loop: "merge_loop rec src da uni path n0 [i..<n0] st =
           merge_loop rec src da uni path n0 [Suc i..<n0] st1"
    and um: "union_merge s rest = union_merge s1 rest'"
    and r1: "repr st1 (Node s1) (VRef src) = Some Fs1" and dF: "distinct Fs1"
    and sub: "set Fs1 \<subseteq> set Fs \<union> set Fdv"
    and fr: "dict_frame (set Fs \<union> set Fdv) st st1"
    by blast
  have da: "da \<notin> set Fs \<union> set Fdv" using Suc.prems(7) Fr by simp
  have h1: "heap st1 da = Some (ODict dkvs)" using dict_frame_heap[OF fr da] Suc.prems(1) by simp
  have dj: "set Fr' \<inter> (set Fs \<union> set Fdv) = {}" using dist Fs by auto
  have rr1: "repr_items st1 rest' (drop (Suc i) dkvs) = Some Fr'"
    using repr_frame(2)[OF fr rr dj] .
  have d1: "distinct (Fs1 @ Fr')" using dF sub dj dist by auto
  have da1: "da \<notin> set Fs1 \<union> set Fr'" using Suc.prems(7) Fr sub by auto
  have hh: "height_items rest' \<le> n" using Suc.prems(8) rest by simp
  have m: "m = n0 - Suc i" using Suc.hyps(2) by simp
  have le: "Suc i \<le> n0" using lt by simp
  obtain st' F' where
    fin: "merge_loop rec src da uni path n0 [Suc i..<n0] st1 = Some (Inr st')"
    and fr2: "dict_frame (set Fs1 \<union> set Fr') st1 st'"
    and rf: "repr st' (Node (union_merge s1 rest')) (VRef src) = Some F'"
    and dF': "distinct F'" and sF': "set F' \<subseteq> set Fs1 \<union> set Fr'"
    using Suc.hyps(1)[OF m h1 Suc.prems(2) le rr1 r1 d1 da1 hh Suc.prems(9)] by blast
  have s1: "set Fs \<union> set Fdv \<subseteq> set Fs \<union> set Fr" using Fr by auto
  have s2: "set Fs1 \<union> set Fr' \<subseteq> set Fs \<union> set Fr" using sub Fr by auto
  have frame: "dict_frame (set Fs \<union> set Fr) st st'"
    by (rule dict_frame_trans[OF fr fr2 s1 s2])
  have "set F' \<subseteq> set Fs \<union> set Fr" using sF' sub Fr by auto
  then show ?case using loop fin um rf dF' frame by auto
qed


lemma merge_dict_refines:
  "repr st (Node s) (VRef src) = Some Fs \<Longrightarrow> repr st (Node d) diff = Some Fd \<Longrightarrow>
   distinct (Fs @ Fd) \<Longrightarrow> height (Node d) \<le> n \<Longrightarrow> truthy_union uni \<Longrightarrow>
   \<exists>st' F'. merge_dict n src diff uni path0 st = Some (Inr (VRef src, st')) \<and>
            dict_frame (set Fs \<union> set Fd) st st' \<and>
            repr st' (Node (union_merge s d)) (VRef src) = Some F' \<and> distinct F' \<and>
            set F' \<subseteq> set Fs \<union> set Fd"
proof (induction n arbitrary: st s src Fs d diff Fd uni path0)
  case 0
  then show ?case by simp
next
  case (Suc n)
  obtain da dkvs Fd0 where diff: "diff = VRef da" and h: "heap st da = Some (ODict dkvs)"
    and rd: "repr_items st d dkvs = Some Fd0" and Fd: "Fd = da # Fd0"
    using repr_NodeD[OF Suc.prems(2)] by auto
  have rec: "\<And>sa ss dv dd st1 Fsa Fdv u p0.
      repr st1 (Node ss) (VRef sa) = Some Fsa \<Longrightarrow> repr st1 (Node dd) dv = Some Fdv \<Longrightarrow>
      distinct (Fsa @ Fdv) \<Longrightarrow> height (Node dd) \<le> n \<Longrightarrow> truthy_union u \<Longrightarrow>
      \<exists>st' F'. merge_dict n sa dv u p0 st1 = Some (Inr (VRef sa, st')) \<and>
               dict_frame (set Fsa \<union> set Fdv) st1 st' \<and>
               repr st' (Node (union_merge ss dd)) (VRef sa) = Some F' \<and> distinct F' \<and>
               set F' \<subseteq> set Fsa \<union> set Fdv"
    using Suc.IH by blast
  have rd0: "repr_items st d (drop 0 dkvs) = Some Fd0" using rd by simp
  have dist: "distinct (Fs @ Fd0)" using Suc.prems(3) Fd by auto
  have da: "da \<notin> set Fs \<union> set Fd0" using Suc.prems(3) Fd by auto
  have hh: "height_items d \<le> n" using Suc.prems(4) by simp
  obtain st' F' where
    loop: "merge_loop (merge_dict n) src da uni (case path0 of None \<Rightarrow> [] | Some p \<Rightarrow> p)
             (length dkvs) [0..<length dkvs] st = Some (Inr st')"
    and fr: "dict_frame (set Fs \<union> set Fd0) st st'"
    and r: "repr st' (Node (union_merge s d)) (VRef src) = Some F'"
    and dF: "distinct F'" and sF: "set F' \<subseteq> set Fs \<union> set Fd0"
    using merge_loop_refines[where rec = "merge_dict n" and n = n and i = 0, OF rec h refl _ rd0
        Suc.prems(1) dist da hh Suc.prems(5)]
    by blast
  have m: "merge_dict (Suc n) src diff uni path0 st = Some (Inr (VRef src, st'))"
    using diff h loop by (subst merge_dict_Suc) (simp add: Let_def bind_def)
  have sub: "set Fs \<union> set Fd0 \<subseteq> set Fs \<union> set Fd" using Fd by auto
  have fr': "dict_frame (set Fs \<union> set Fd) st st'" by (rule dict_frame_mono[OF fr sub])
  show ?case using m fr' r dF sF sub by blast
qed

lemma map_of_put: "map_of (put k t s) k' = (if k' = k then Some t else map_of s k')"
  by (induction k t s rule: put.induct) auto

lemma union_merge_lookup:
  "distinct (map fst d) \<Longrightarrow>
   map_of (union_merge s d) k =
     (case map_of d k of
        None \<Rightarrow> map_of s k
      | Some (Leaf v) \<Rightarrow> Some (Leaf v)
      | Some (Node dd) \<Rightarrow>
          (case map_of s k of
             Some (Node ss) \<Rightarrow> Some (Node (union_merge ss dd))
           | _ \<Rightarrow> Some (Node dd)))"
proof (induction d arbitrary: s)
  case Nil
  then show ?case by simp
next
  case (Cons kt d)
  obtain k0 t0 where kt: "kt = (k0, t0)" by (cases kt)
  have dd: "distinct (map fst d)" and k0: "map_of d k0 = None"
    using Cons.prems kt by (auto simp: map_of_eq_None_iff)
  show ?case
  proof (cases t0)
    case (Leaf v)
    show ?thesis
      using Cons.IH[OF dd, of "put k0 (Leaf v) s"] k0 kt Leaf
      by (auto simp: map_of_put split: option.splits mtree.splits)
  next
    case (Node dd0)
    show ?thesis
      using Cons.IH[OF dd, of "put k0 (case map_of s k0 of
                 Some (Node ss) \<Rightarrow> Node (union_merge ss dd0)
               | _ \<Rightarrow> Node dd0) s"] k0 kt Node
      by (auto simp: map_of_put split: option.splits mtree.splits)
  qed
qed

text \<open>
  Claim C6 as stated fails. Merging the difference \<open>{a: 2}\<close> into the source \<open>{a: 1}\<close> with
  \<open>union=True\<close> leaves \<open>{a: 2}\<close> in the source: line 156 assigns \<open>src[key] = diff[key]\<close> on a
  collision of two values that are not both mappings. The merge as the spec words it keeps
  \<open>{a: 1}\<close>.
\<close>

theorem C6_source_value_replaced_counterexample:
  "repr collision_store (Node [(''a'', Leaf (VInt 1))]) (VRef 0) = Some [0] \<and>
   repr collision_store (Node [(''a'', Leaf (VInt 2))]) (VRef 1) = Some [1] \<and>
   result_value (merge_dict 1 0 (VRef 1) (UBool True) None collision_store) = Some (VRef 0) \<and>
   items_at (result_store (merge_dict 1 0 (VRef 1) (UBool True) None collision_store)) 0 =
     [(''a'', VInt 2)] \<and>
   spec_union_merge [(''a'', Leaf (VInt 1))] [(''a'', Leaf (VInt 2))] = [(''a'', Leaf (VInt 1))] \<and>
   repr (result_store (merge_dict 1 0 (VRef 1) (UBool True) None collision_store))
     (Node (spec_union_merge [(''a'', Leaf (VInt 1))] [(''a'', Leaf (VInt 2))])) (VRef 0) = None"
  by code_simp

text \<open>
  Claim C6, with the value of the difference mapping winning. Let the source be a tree of
  dicts and the difference be a tree of dicts that shares no dict with it, and let the fuel
  be at least the depth of the difference. Then \<open>merge_dict(src, diff, union=True)\<close> returns,
  its result is the object \<open>src\<close> itself, and \<open>src\<close> then is the tree \<open>union_merge\<close> of the two:
  nested mappings are merged recursively, every key of the difference that the source does
  not have is added, and on any other collision the value of the difference replaces the
  value of the source. Only dicts of the two trees have changed. The second part reads the
  entries of \<open>union_merge\<close> key by key.
\<close>

theorem C6_union_merge_difference_wins:
  "(repr st (Node s) (VRef src) = Some Fs \<and> repr st (Node d) diff = Some Fd \<and>
    distinct (Fs @ Fd) \<and> height (Node d) \<le> fuel \<longrightarrow>
    (\<exists>st' F'. merge_dict fuel src diff (UBool True) None st = Some (Inr (VRef src, st')) \<and>
              repr st' (Node (union_merge s d)) (VRef src) = Some F' \<and>
              set F' \<subseteq> set Fs \<union> set Fd \<and>
              dict_frame (set Fs \<union> set Fd) st st')) \<and>
   (distinct (map fst d) \<longrightarrow>
    map_of (union_merge s d) k =
      (case map_of d k of
         None \<Rightarrow> map_of s k
       | Some (Leaf v) \<Rightarrow> Some (Leaf v)
       | Some (Node dd) \<Rightarrow>
           (case map_of s k of
              Some (Node ss) \<Rightarrow> Some (Node (union_merge ss dd))
            | _ \<Rightarrow> Some (Node dd))))"
proof -
  have a: "\<exists>st' F'. merge_dict fuel src diff (UBool True) None st = Some (Inr (VRef src, st')) \<and>
              repr st' (Node (union_merge s d)) (VRef src) = Some F' \<and>
              set F' \<subseteq> set Fs \<union> set Fd \<and>
              dict_frame (set Fs \<union> set Fd) st st'"
    if "repr st (Node s) (VRef src) = Some Fs" "repr st (Node d) diff = Some Fd"
       "distinct (Fs @ Fd)" "height (Node d) \<le> fuel"
    using merge_dict_refines[OF that, of "UBool True" None] by auto
  show ?thesis using a union_merge_lookup[of d s k] by blast
qed

theorem C6_union_merge_difference_wins_witness:
  "\<exists>st' F'.
     merge_dict 2 0 (VRef 2) (UBool True) None nested_store = Some (Inr (VRef 0, st')) \<and>
     repr st' (Node [(''a'', Node [(''x'', Leaf (VInt 1)), (''y'', Leaf (VInt 3))]),
                     (''b'', Leaf (VInt 5)), (''c'', Leaf (VInt 7))]) (VRef 0) = Some F'"
proof -
  let ?s = "[(''a'', Node [(''x'', Leaf (VInt 1))]), (''b'', Leaf (VInt 2))]"
  let ?d = "[(''a'', Node [(''y'', Leaf (VInt 3))]), (''b'', Leaf (VInt 5)), (''c'', Leaf (VInt 7))]"
  have rs: "repr nested_store (Node ?s) (VRef 0) = Some [0, 1]"
    and rd: "repr nested_store (Node ?d) (VRef 2) = Some [2, 3]"
    by (simp_all add: nested_store_def)
  have di: "distinct ([0, 1] @ [2, 3 :: nat])" and h: "height (Node ?d) \<le> 2"
    by simp_all
  have um: "union_merge ?s ?d =
      [(''a'', Node [(''x'', Leaf (VInt 1)), (''y'', Leaf (VInt 3))]),
       (''b'', Leaf (VInt 5)), (''c'', Leaf (VInt 7))]"
    by simp
  show ?thesis
    using C6_union_merge_difference_wins[of nested_store ?s 0 "[0, 1]" ?d "VRef 2" "[2, 3]" 2,
        THEN conjunct1] rs rd di h
    unfolding um by blast
qed

end
